theory Spec2Isabelle
  imports Complex_Main "HOL-Library.Char_ord" "HOL-Library.List_Lexorder"
begin

section \<open>Service-order totals (utils.py)\<close>

text \<open>
  The financial columns of \<^verbatim>\<open>ServiceOrder\<close> (models.py, lines 63 to 68) are
  \<^verbatim>\<open>db.Float\<close> columns and one short string. The amounts are modelled as
  mathematical reals: the arithmetic of \<^verbatim>\<open>calculate_totals\<close> is read over the
  numbers it denotes, and the rounding, the infinities and the not-a-number value of
  the machine representation are outside this development. The discount type stays
  the string the source compares.
\<close>

record service_order =
  material_total :: real
  labor_total :: real
  general_budget :: real
  discount_type :: string
  discount_value :: real
  surcharge_percentage :: real

text \<open>
  \<^verbatim>\<open>calculate_totals\<close> (utils.py, lines 11 to 35) is straight-line code; each of its
  local variables is one definition here, under the name the source gives it.
\<close>

definition base_total :: "service_order \<Rightarrow> real" where
  "base_total so =
     (let b = material_total so + labor_total so
      in if general_budget so > b then general_budget so else b)"

definition discount_amount :: "service_order \<Rightarrow> real" where
  "discount_amount so =
     (if discount_type so = ''percentage'' then base_total so * (discount_value so / 100)
      else if discount_type so = ''fixed'' then discount_value so
      else 0)"

definition total_after_discount :: "service_order \<Rightarrow> real" where
  "total_after_discount so = base_total so - discount_amount so"

definition surcharge_amount :: "service_order \<Rightarrow> real" where
  "surcharge_amount so = total_after_discount so * (surcharge_percentage so / 100)"

definition final_total :: "service_order \<Rightarrow> real" where
  "final_total so = total_after_discount so + surcharge_amount so"

definition calculate_totals :: "service_order \<Rightarrow> real" where
  "calculate_totals so = max (final_total so) 0"

text \<open>
  The specification's contract \<^verbatim>\<open>compute_final_total\<close> is the same function with the
  six fields passed one by one.
\<close>

definition compute_final_total ::
  "real \<Rightarrow> real \<Rightarrow> real \<Rightarrow> string \<Rightarrow> real \<Rightarrow> real \<Rightarrow> real" where
  "compute_final_total m l g t v s =
     calculate_totals \<lparr>material_total = m, labor_total = l, general_budget = g,
       discount_type = t, discount_value = v, surcharge_percentage = s\<rparr>"

section \<open>Surcharge assignment in the request handlers (routes.py)\<close>

datatype error = ValueError





section \<open>Order numbers (models.py)\<close>

subsection \<open>Text of numbers\<close>

definition digit_char :: "nat \<Rightarrow> char" where
  "digit_char d = ''0123456789'' ! d"

text \<open>Python's \<^verbatim>\<open>str\<close> of a non-negative integer: its decimal digits.\<close>

function str_nat :: "nat \<Rightarrow> string" where
  "str_nat n = (if n < 10 then [digit_char n] else str_nat (n div 10) @ [digit_char (n mod 10)])"
  by pat_completeness auto
termination
  by (relation "measure id") auto

declare str_nat.simps [simp del]

definition zfill :: "nat \<Rightarrow> string \<Rightarrow> string" where
  "zfill w s = replicate (w - length s) (CHR ''0'') @ s"

text \<open>
  The format \<^verbatim>\<open>{next_number:04d}\<close>: at least four characters, padded with zeros
  after the sign; a longer number is printed in full.
\<close>

definition format_04d :: "int \<Rightarrow> string" where
  "format_04d n =
     (if n < 0 then CHR ''-'' # zfill 3 (str_nat (nat (- n))) else zfill 4 (str_nat (nat n)))"

subsection \<open>Reading a number: \<^verbatim>\<open>int(text)\<close>\<close>

definition digit_of :: "char \<Rightarrow> nat option" where
  "digit_of c = map_of (zip ''0123456789'' [0 ..< 10]) c"

definition is_space :: "char \<Rightarrow> bool" where
  "is_space c = (c \<in> set [CHR '' '', CHR 0x09, CHR 0x0A, CHR 0x0B, CHR 0x0C, CHR 0x0D])"

definition strip :: "string \<Rightarrow> string" where
  "strip s = rev (dropWhile is_space (rev (dropWhile is_space s)))"

text \<open>
  The digits after the first one; a single underscore may stand between two digits.
\<close>

fun digits_acc :: "nat \<Rightarrow> string \<Rightarrow> nat option" where
  "digits_acc a [] = Some a"
| "digits_acc a (c # cs) =
     (if c = CHR ''_'' then
        (case cs of
           [] \<Rightarrow> None
         | d # ds \<Rightarrow> (case digit_of d of None \<Rightarrow> None | Some v \<Rightarrow> digits_acc (10 * a + v) ds))
      else (case digit_of c of None \<Rightarrow> None | Some v \<Rightarrow> digits_acc (10 * a + v) cs))"

definition parse_digits :: "string \<Rightarrow> nat option" where
  "parse_digits s =
     (case s of
        [] \<Rightarrow> None
      | c # cs \<Rightarrow> (case digit_of c of None \<Rightarrow> None | Some v \<Rightarrow> digits_acc v cs))"

text \<open>
  \<^verbatim>\<open>int(text)\<close> in base ten on text of one-byte characters: surrounding white space is
  dropped, one sign is allowed, and anything else that is not a digit sequence raises
  \<^verbatim>\<open>ValueError\<close>. The interpreter's limit on the number of digits lies far beyond the
  twenty characters of the \<^verbatim>\<open>os_number\<close> column and is left out.
\<close>

definition py_int :: "string \<Rightarrow> error + int" where
  "py_int s =
     (case strip s of
        [] \<Rightarrow> Inl ValueError
      | c # cs \<Rightarrow>
          if c = CHR ''-'' then
            (case parse_digits cs of None \<Rightarrow> Inl ValueError | Some n \<Rightarrow> Inr (- int n))
          else if c = CHR ''+'' then
            (case parse_digits cs of None \<Rightarrow> Inl ValueError | Some n \<Rightarrow> Inr (int n))
          else
            (case parse_digits (c # cs) of None \<Rightarrow> Inl ValueError | Some n \<Rightarrow> Inr (int n)))"

subsection \<open>The generator\<close>

text \<open>
  The table of service orders enters as the list of its \<^verbatim>\<open>os_number\<close> values, and
  the clock as the current year. The text \<^verbatim>\<open>OS-{current_year}-\<close>:
\<close>

definition os_prefix :: "nat \<Rightarrow> string" where
  "os_prefix current_year = ''OS-'' @ str_nat current_year @ ''-''"

text \<open>
  \<^verbatim>\<open>os_number LIKE 'OS-{current_year}-%'\<close>: the pattern has no wildcard before the
  final \<^verbatim>\<open>%\<close>, so a row matches when it starts with the prefix.
\<close>

definition like_prefix :: "string \<Rightarrow> string \<Rightarrow> bool" where
  "like_prefix p s = (take (length p) s = p)"

text \<open>
  \<^verbatim>\<open>ServiceOrder.query.filter(...).order_by(ServiceOrder.os_number.desc()).first()\<close>
  (models.py, lines 125 to 127): the greatest matching row in the order of the strings,
  character by character, or nothing when no row matches.
\<close>

definition query_last_os :: "nat \<Rightarrow> string list \<Rightarrow> string option" where
  "query_last_os current_year rows =
     (case filter (like_prefix (os_prefix current_year)) rows of
        [] \<Rightarrow> None
      | r # rs \<Rightarrow> Some (fold max rs r))"

text \<open>\<^verbatim>\<open>text.split('-')[-1]\<close>: what follows the last hyphen, or the whole text.\<close>

definition last_segment :: "string \<Rightarrow> string" where
  "last_segment s = rev (takeWhile (\<lambda>c. c \<noteq> CHR ''-'') (rev s))"

definition generate_os_number :: "nat \<Rightarrow> string list \<Rightarrow> error + string" where
  "generate_os_number current_year rows =
     (case query_last_os current_year rows of
        None \<Rightarrow> Inr (os_prefix current_year @ format_04d 1)
      | Some last_os \<Rightarrow>
          (case py_int (last_segment last_os) of
             Inl e \<Rightarrow> Inl e
           | Inr last_number \<Rightarrow> Inr (os_prefix current_year @ format_04d (last_number + 1))))"

text \<open>
  The table after \<open>n\<close> orders of one year have been created one at a time in an empty
  table, as long as each creation stores the number the generator returned: the first
  \<open>n\<close> numbers of the year.
\<close>

definition issued_rows :: "nat \<Rightarrow> nat \<Rightarrow> string list" where
  "issued_rows current_year n =
     map (\<lambda>k. os_prefix current_year @ format_04d (int k)) [1 ..< Suc n]"

text \<open>The value of a text of decimal digits, read from the left.\<close>

definition digits_value :: "string \<Rightarrow> nat" where
  "digits_value ds = fold (\<lambda>c a. 10 * a + (of_char c - 48)) ds 0"

section \<open>Basic facts\<close>

lemmas totals_defs =
  base_total_def discount_amount_def total_after_discount_def surcharge_amount_def
  final_total_def calculate_totals_def compute_final_total_def

section \<open>Properties of the totals calculator\<close>




text \<open>
  Claim C3. The general budget is a floor for the base and never a ceiling: the base is
  the general budget when that is greater than material plus labor, and material plus
  labor otherwise; nothing else of the three amounts reaches the result. With items of
  10 and 10 a budget of 50 gives 50; with items of 40 and 40 it gives 80.
\<close>

theorem C3_budget_is_floor:
  "base_total so =
     (if general_budget so > material_total so + labor_total so then general_budget so
      else material_total so + labor_total so)
   \<and> material_total so + labor_total so \<le> base_total so
   \<and> general_budget so \<le> base_total so
   \<and> calculate_totals so =
       calculate_totals (so\<lparr>material_total := base_total so, labor_total := 0,
                            general_budget := base_total so\<rparr>)
   \<and> compute_final_total 10 10 50 ''none'' 0 0 = 50
   \<and> compute_final_total 40 40 50 ''none'' 0 0 = 80"
proof -
  have b: "base_total so =
     (if general_budget so > material_total so + labor_total so then general_budget so
      else material_total so + labor_total so)"
    by (simp add: base_total_def Let_def)
  have lo: "material_total so + labor_total so \<le> base_total so"
    and hi: "general_budget so \<le> base_total so"
    by (simp_all add: b)
  have same: "base_total (so\<lparr>material_total := base_total so, labor_total := 0,
                            general_budget := base_total so\<rparr>) = base_total so"
    by (simp add: base_total_def Let_def)
  have used: "calculate_totals so =
       calculate_totals (so\<lparr>material_total := base_total so, labor_total := 0,
                            general_budget := base_total so\<rparr>)"
    by (simp add: calculate_totals_def final_total_def surcharge_amount_def
        total_after_discount_def discount_amount_def same)
  have e1: "compute_final_total 10 10 50 ''none'' 0 0 = 50"
    by (simp add: totals_defs)
  have e2: "compute_final_total 40 40 50 ''none'' 0 0 = 80"
    by (simp add: totals_defs)
  from b lo hi used e1 e2 show ?thesis
    by blast
qed



text \<open>
  Claim C7. The calculator has no failing branch: a discount type other than
  \<^verbatim>\<open>percentage\<close> and \<^verbatim>\<open>fixed\<close>, whether \<^verbatim>\<open>none\<close> or a text it does not know, gives
  a discount of zero, and the result is the surcharged base floored at zero.
\<close>

theorem C7_unrecognized_discount_type:
  assumes "discount_type so \<notin> {''percentage'', ''fixed''}"
  shows "discount_amount so = 0
    \<and> calculate_totals so = max (base_total so * (1 + surcharge_percentage so / 100)) 0"
proof -
  from assms have d: "discount_amount so = 0"
    by (simp add: discount_amount_def)
  then have "final_total so = base_total so * (1 + surcharge_percentage so / 100)"
    by (simp add: final_total_def surcharge_amount_def total_after_discount_def algebra_simps)
  with d show ?thesis
    by (simp add: calculate_totals_def)
qed

theorem C7_unrecognized_discount_type_witness:
  "discount_amount \<lparr>material_total = 80, labor_total = 20, general_budget = 0,
        discount_type = ''half-price'', discount_value = 50, surcharge_percentage = 5\<rparr> = 0
   \<and> calculate_totals \<lparr>material_total = 80, labor_total = 20, general_budget = 0,
        discount_type = ''half-price'', discount_value = 50, surcharge_percentage = 5\<rparr> = 105"
  using C7_unrecognized_discount_type [of "\<lparr>material_total = 80, labor_total = 20,
        general_budget = 0, discount_type = ''half-price'', discount_value = 50,
        surcharge_percentage = 5\<rparr>"]
  by (simp add: base_total_def)







section \<open>Properties of the order-number generator\<close>

subsection \<open>Digits\<close>

lemma digit_cases:
  "c \<in> set ''0123456789'' \<Longrightarrow>
     c = CHR ''0'' \<or> c = CHR ''1'' \<or> c = CHR ''2'' \<or> c = CHR ''3'' \<or> c = CHR ''4'' \<or>
     c = CHR ''5'' \<or> c = CHR ''6'' \<or> c = CHR ''7'' \<or> c = CHR ''8'' \<or> c = CHR ''9''"
  by simp

lemma digit_of_digit:
  assumes "c \<in> set ''0123456789''"
  shows "digit_of c = Some (of_char c - 48)"
  using digit_cases [OF assms]
  by (elim disjE) (simp_all add: digit_of_def upt_conv_Cons)

lemma digit_not_special:
  assumes "c \<in> set ''0123456789''"
  shows "c \<noteq> CHR ''-''" "c \<noteq> CHR ''+''" "c \<noteq> CHR ''_''" "\<not> is_space c"
  using digit_cases [OF assms]
  by (auto simp: is_space_def)

lemma digit_le_9:
  assumes "c \<in> set ''0123456789''"
  shows "c \<le> CHR ''9''"
  using digit_cases [OF assms]
  by (elim disjE) simp_all

lemma digit_char_digit: "d < 10 \<Longrightarrow> digit_char d \<in> set ''0123456789''"
proof -
  assume "d < 10"
  then have "d \<in> {0, 1, 2, 3, 4, 5, 6, 7, 8, 9}" by auto
  then show ?thesis
    by (auto simp: digit_char_def)
qed

lemma of_char_digit_char: "d < 10 \<Longrightarrow> of_char (digit_char d) - 48 = d"
proof -
  assume "d < 10"
  then have "d \<in> {0, 1, 2, 3, 4, 5, 6, 7, 8, 9}" by auto
  then show ?thesis
    by (auto simp: digit_char_def)
qed



subsection \<open>Printing and reading numbers\<close>

text \<open>
  \<open>str_nat\<close> unfolds only on request: its equation is an unconditional recursion.
  Reading back what was printed, padded or not, gives the number.
\<close>

lemma str_nat_digits: "set (str_nat n) \<subseteq> set ''0123456789''"
proof (induction n rule: str_nat.induct)
  case (1 n)
  show ?case
  proof (cases "n < 10")
    case True
    then show ?thesis
      using digit_char_digit [of n] by (simp add: str_nat.simps [of n])
  next
    case False
    have "n mod 10 < 10" by simp
    then have "digit_char (n mod 10) \<in> set ''0123456789''"
      by (rule digit_char_digit)
    with False "1.IH" show ?thesis
      by (simp add: str_nat.simps [of n])
  qed
qed

lemma str_nat_nonempty: "str_nat n \<noteq> []"
  by (simp add: str_nat.simps [of n])

lemma fold_digits_acc:
  "fold (\<lambda>c a. 10 * a + (of_char c - 48)) ds (a::nat) =
     a * 10 ^ length ds + fold (\<lambda>c a. 10 * a + (of_char c - 48)) ds 0"
proof (induction ds arbitrary: a)
  case Nil
  show ?case by simp
next
  case (Cons c cs)
  have "fold (\<lambda>c a. 10 * a + (of_char c - 48)) (c # cs) a =
        fold (\<lambda>c a. 10 * a + (of_char c - 48)) cs (10 * a + (of_char c - 48))"
    by simp
  also have "\<dots> = (10 * a + (of_char c - 48)) * 10 ^ length cs
        + fold (\<lambda>c a. 10 * a + (of_char c - 48)) cs 0"
    by (rule Cons.IH)
  finally have l: "fold (\<lambda>c a. 10 * a + (of_char c - 48)) (c # cs) a =
      (10 * a + (of_char c - 48)) * 10 ^ length cs
        + fold (\<lambda>c a. 10 * a + (of_char c - 48)) cs 0" .
  have "fold (\<lambda>c a. 10 * a + (of_char c - 48)) (c # cs) (0::nat) =
        fold (\<lambda>c a. 10 * a + (of_char c - 48)) cs (of_char c - 48)"
    by simp
  also have "\<dots> = (of_char c - 48) * 10 ^ length cs
        + fold (\<lambda>c a. 10 * a + (of_char c - 48)) cs 0"
    by (rule Cons.IH)
  finally have r: "fold (\<lambda>c a. 10 * a + (of_char c - 48)) (c # cs) (0::nat) =
      (of_char c - 48) * 10 ^ length cs
        + fold (\<lambda>c a. 10 * a + (of_char c - 48)) cs 0" .
  show ?case
    unfolding l r by (simp add: algebra_simps)
qed

lemma digits_value_Cons:
  "digits_value (c # cs) = (of_char c - 48) * 10 ^ length cs + digits_value cs"
  unfolding digits_value_def
  using fold_digits_acc [of cs "of_char c - 48"] by simp

lemma digits_value_snoc:
  "digits_value (cs @ [c]) = 10 * digits_value cs + (of_char c - 48)"
  by (simp add: digits_value_def)

lemma digits_value_str_nat: "digits_value (str_nat n) = n"
proof (induction n rule: str_nat.induct)
  case (1 n)
  show ?case
  proof (cases "n < 10")
    case True
    then show ?thesis
      by (simp add: str_nat.simps [of n] digits_value_def of_char_digit_char)
  next
    case False
    have "digits_value (str_nat n) =
        10 * digits_value (str_nat (n div 10)) + (of_char (digit_char (n mod 10)) - 48)"
      using False by (simp add: str_nat.simps [of n] digits_value_snoc)
    also have "\<dots> = 10 * (n div 10) + n mod 10"
      using False "1.IH" by (simp add: of_char_digit_char)
    finally show ?thesis by simp
  qed
qed

lemma digits_value_zeros: "digits_value (replicate k (CHR ''0'') @ s) = digits_value s"
  by (induction k) (simp_all add: digits_value_Cons)

lemma digits_value_zfill: "digits_value (zfill w (str_nat n)) = n"
  by (simp add: zfill_def digits_value_zeros digits_value_str_nat)

lemma length_zfill: "length (zfill w s) = max w (length s)"
  by (simp add: zfill_def)

lemma zfill_wide: "w \<le> length s \<Longrightarrow> zfill w s = s"
  by (simp add: zfill_def)

lemma zfill_digits:
  "set s \<subseteq> set ''0123456789'' \<Longrightarrow> set (zfill w s) \<subseteq> set ''0123456789''"
  by (auto simp: zfill_def)

lemma length_str_nat_ge: "10 ^ k \<le> n \<Longrightarrow> k < length (str_nat n)"
proof (induction k arbitrary: n)
  case 0
  then show ?case
    using str_nat_nonempty [of n] by (cases "str_nat n") simp_all
next
  case (Suc k)
  from Suc.prems have "10 ^ k \<le> n div 10" by simp
  then have "k < length (str_nat (n div 10))" by (rule Suc.IH)
  moreover from Suc.prems have "\<not> n < 10"
  proof -
    have "(10::nat) \<le> 10 ^ Suc k" by simp
    with Suc.prems show ?thesis by linarith
  qed
  ultimately show ?case
    by (simp add: str_nat.simps [of n])
qed

lemma length_str_nat_le: "n < 10 ^ Suc k \<Longrightarrow> length (str_nat n) \<le> Suc k"
proof (induction k arbitrary: n)
  case 0
  then show ?case by (simp add: str_nat.simps [of n])
next
  case (Suc k)
  show ?case
  proof (cases "n < 10")
    case True
    then show ?thesis by (simp add: str_nat.simps [of n])
  next
    case False
    from Suc.prems have "n div 10 < 10 ^ Suc k" by (simp add: less_mult_imp_div_less)
    then have "length (str_nat (n div 10)) \<le> Suc k" by (rule Suc.IH)
    with False show ?thesis by (simp add: str_nat.simps [of n])
  qed
qed


subsection \<open>\<^verbatim>\<open>int\<close> and \<^verbatim>\<open>split\<close> on a well-formed row\<close>

lemma digits_acc_digits:
  "set cs \<subseteq> set ''0123456789'' \<Longrightarrow>
     digits_acc a cs = Some (fold (\<lambda>c a. 10 * a + (of_char c - 48)) cs a)"
proof (induction cs arbitrary: a)
  case Nil
  show ?case by simp
next
  case (Cons c cs)
  from Cons.prems have c: "c \<in> set ''0123456789''" and cs: "set cs \<subseteq> set ''0123456789''"
    by simp_all
  from c have "c \<noteq> CHR ''_''" by (rule digit_not_special)
  then have "digits_acc a (c # cs) = digits_acc (10 * a + (of_char c - 48)) cs"
    by (simp add: digit_of_digit [OF c])
  also have "\<dots> = Some (fold (\<lambda>c a. 10 * a + (of_char c - 48)) cs (10 * a + (of_char c - 48)))"
    using cs by (rule Cons.IH)
  finally show ?case by simp
qed

lemma parse_digits_digits:
  assumes "ds \<noteq> []" and "set ds \<subseteq> set ''0123456789''"
  shows "parse_digits ds = Some (digits_value ds)"
proof (cases ds)
  case Nil
  with assms show ?thesis by simp
next
  case (Cons c cs)
  with assms have c: "c \<in> set ''0123456789''" and cs: "set cs \<subseteq> set ''0123456789''"
    by simp_all
  show ?thesis
    unfolding Cons parse_digits_def digits_value_def
    by (simp add: digit_of_digit [OF c] digits_acc_digits [OF cs])
qed

lemma strip_digits:
  assumes "ds \<noteq> []" and "set ds \<subseteq> set ''0123456789''"
  shows "strip ds = ds"
proof -
  from assms have h: "\<not> is_space (hd ds)"
    by (intro digit_not_special) (cases ds, auto)
  from assms have l: "\<not> is_space (hd (rev ds))"
    by (intro digit_not_special) (cases ds rule: rev_cases, auto)
  from assms h have 1: "dropWhile is_space ds = ds"
    by (cases ds) simp_all
  from assms l have 2: "dropWhile is_space (rev ds) = rev ds"
    by (cases "rev ds") simp_all
  show ?thesis
    by (simp add: strip_def 1 2)
qed

lemma py_int_digits:
  assumes "ds \<noteq> []" and "set ds \<subseteq> set ''0123456789''"
  shows "py_int ds = Inr (int (digits_value ds))"
proof (cases ds)
  case Nil
  with assms show ?thesis by simp
next
  case (Cons c cs)
  with assms have c: "c \<in> set ''0123456789''" by simp
  have m: "c \<noteq> CHR ''-''" and p: "c \<noteq> CHR ''+''"
    using c by (rule digit_not_special)+
  have "parse_digits (c # cs) = Some (digits_value ds)"
    using parse_digits_digits [OF assms] Cons by simp
  with m p show ?thesis
    using strip_digits [OF assms] Cons by (simp add: py_int_def)
qed

lemma last_segment_after_hyphen:
  assumes "set ds \<subseteq> set ''0123456789''"
  shows "last_segment (q @ CHR ''-'' # ds) = ds"
proof -
  have "\<forall>c \<in> set (rev ds). c \<noteq> CHR ''-''"
    using assms digit_not_special(1) by auto
  then have "takeWhile (\<lambda>c. c \<noteq> CHR ''-'') (rev ds @ CHR ''-'' # rev q) =
      rev ds @ takeWhile (\<lambda>c. c \<noteq> CHR ''-'') (CHR ''-'' # rev q)"
    by (intro takeWhile_append2) simp
  then show ?thesis
    by (simp add: last_segment_def)
qed

lemma last_segment_os_prefix:
  assumes "set ds \<subseteq> set ''0123456789''"
  shows "last_segment (os_prefix y @ ds) = ds"
  using last_segment_after_hyphen [OF assms, of "''OS-'' @ str_nat y"]
  by (simp add: os_prefix_def)

subsection \<open>The query and the two branches of the generator\<close>

lemma query_last_os_none:
  assumes "\<forall>r \<in> set rows. \<not> like_prefix (os_prefix y) r"
  shows "query_last_os y rows = None"
proof -
  from assms have "filter (like_prefix (os_prefix y)) rows = []"
    by (simp add: filter_empty_conv)
  then show ?thesis
    by (simp add: query_last_os_def)
qed

lemma query_last_os_max:
  assumes "m \<in> set rows" and "like_prefix (os_prefix y) m"
    and "\<forall>r \<in> set rows. like_prefix (os_prefix y) r \<longrightarrow> r \<le> m"
  shows "query_last_os y rows = Some m"
proof (cases "filter (like_prefix (os_prefix y)) rows")
  case Nil
  with assms(1,2) show ?thesis
    by (simp add: filter_empty_conv)
next
  case (Cons r rs)
  have "fold max rs r = Max (set (r # rs))"
    by (rule Max.set_eq_fold [symmetric])
  also have "set (r # rs) = {x \<in> set rows. like_prefix (os_prefix y) x}"
    using Cons [symmetric] by simp
  also have "Max \<dots> = m"
    using assms by (intro Max_eqI) auto
  finally show ?thesis
    using Cons by (simp add: query_last_os_def)
qed

lemma format_04d_nat: "format_04d (int n) = zfill 4 (str_nat n)"
  by (simp add: format_04d_def)

lemma format_04d_succ: "format_04d (int n + 1) = zfill 4 (str_nat (Suc n))"
  using format_04d_nat [of "Suc n"] by (simp add: add.commute)

lemma format_04d_one: "format_04d 1 = ''0001''"
  by (simp add: format_04d_def zfill_def str_nat.simps [of "Suc 0"] digit_char_def numeral_3_eq_3)

lemma generate_first:
  assumes "\<forall>r \<in> set rows. \<not> like_prefix (os_prefix y) r"
  shows "generate_os_number y rows = Inr (os_prefix y @ ''0001'')"
  by (simp add: generate_os_number_def query_last_os_none [OF assms] format_04d_one)

lemma generate_next:
  assumes "os_prefix y @ ds \<in> set rows"
    and "\<forall>r \<in> set rows. like_prefix (os_prefix y) r \<longrightarrow> r \<le> os_prefix y @ ds"
    and "ds \<noteq> []" and "set ds \<subseteq> set ''0123456789''"
  shows "generate_os_number y rows =
    Inr (os_prefix y @ zfill 4 (str_nat (Suc (digits_value ds))))"
proof -
  have "like_prefix (os_prefix y) (os_prefix y @ ds)"
    by (simp add: like_prefix_def)
  with assms(1,2) have "query_last_os y rows = Some (os_prefix y @ ds)"
    by (intro query_last_os_max)
  then show ?thesis
    by (simp add: generate_os_number_def last_segment_os_prefix [OF assms(4)]
        py_int_digits [OF assms(3,4)] format_04d_succ)
qed


subsection \<open>Order of the strings against order of the numbers\<close>

text \<open>
  Two digit texts of the same length compare as their numbers do; this is what the
  four-digit padding buys, and only while the numbers have at most four digits.
\<close>

lemma append_le_cancel: "(p @ a \<le> p @ b) = (a \<le> (b :: 'a :: linorder list))"
  by (induction p) simp_all

lemma digit_less_iff:
  assumes "c \<in> set ''0123456789''" and "d \<in> set ''0123456789''"
  shows "(c < d) = ((of_char c :: nat) - 48 < of_char d - 48)"
    and "(c = d) = ((of_char c :: nat) - 48 = of_char d - 48)"
  using digit_cases [OF assms(1)] digit_cases [OF assms(2)]
  by (elim disjE; simp)+

lemma digit_value_le_9:
  assumes "c \<in> set ''0123456789''"
  shows "(of_char c :: nat) - 48 \<le> 9"
  using digit_cases [OF assms] by (elim disjE) simp_all

lemma digits_value_bound:
  "set cs \<subseteq> set ''0123456789'' \<Longrightarrow> digits_value cs < 10 ^ length cs"
proof (induction cs)
  case Nil
  show ?case by (simp add: digits_value_def)
next
  case (Cons c cs)
  then have c: "(of_char c :: nat) - 48 \<le> 9" and v: "digits_value cs < 10 ^ length cs"
    by (simp_all add: digit_value_le_9)
  from c have m: "((of_char c :: nat) - 48) * 10 ^ length cs \<le> 9 * 10 ^ length cs"
    by (rule mult_le_mono1)
  have "digits_value (c # cs) = (of_char c - 48) * 10 ^ length cs + digits_value cs"
    by (rule digits_value_Cons)
  also have "\<dots> < 9 * 10 ^ length cs + 10 ^ length cs"
    using m v by linarith
  also have "\<dots> = 10 ^ length (c # cs)"
    by simp
  finally show ?case .
qed

lemma digits_le_of_value_le:
  assumes "length a = length b"
    and "set a \<subseteq> set ''0123456789''" and "set b \<subseteq> set ''0123456789''"
    and "digits_value a \<le> digits_value b"
  shows "a \<le> b"
  using assms
proof (induction a b rule: list_induct2)
  case Nil
  show ?case by simp
next
  case (Cons x xs y ys)
  let ?n = "length xs"
  let ?vx = "(of_char x :: nat) - 48" and ?vy = "(of_char y :: nat) - 48"
  from Cons.prems have x: "x \<in> set ''0123456789''" and y: "y \<in> set ''0123456789''"
    and xs: "set xs \<subseteq> set ''0123456789''" and ys: "set ys \<subseteq> set ''0123456789''"
    by simp_all
  from Cons.prems(3) Cons.hyps
  have le: "?vx * 10 ^ ?n + digits_value xs \<le> ?vy * 10 ^ ?n + digits_value ys"
    by (simp add: digits_value_Cons)
  have bx: "digits_value xs < 10 ^ ?n" using xs by (rule digits_value_bound)
  have b: "digits_value ys < 10 ^ ?n"
    using digits_value_bound [OF ys] Cons.hyps by simp
  have not_gt: "\<not> ?vy < ?vx"
  proof
    assume "?vy < ?vx"
    then have "Suc ?vy \<le> ?vx" by simp
    then have "Suc ?vy * 10 ^ ?n \<le> ?vx * 10 ^ ?n" by (rule mult_le_mono1)
    moreover have "Suc ?vy * 10 ^ ?n = ?vy * 10 ^ ?n + 10 ^ ?n" by simp
    ultimately show False using le b by linarith
  qed
  show ?case
  proof (cases "?vx < ?vy")
    case True
    then have "x < y" using digit_less_iff(1) [OF x y] by simp
    then show ?thesis by simp
  next
    case False
    with not_gt have eq: "?vx = ?vy" by simp
    then have "x = y" using digit_less_iff(2) [OF x y] by simp
    moreover from le eq have "digits_value xs \<le> digits_value ys" by simp
    then have "xs \<le> ys" using xs ys by (intro Cons.IH)
    ultimately show ?thesis by simp
  qed
qed

lemma length_format_small:
  assumes "n < 10000"
  shows "length (zfill 4 (str_nat n)) = 4"
proof -
  from assms have "n < 10 ^ Suc 3" by simp
  then have "length (str_nat n) \<le> Suc 3" by (rule length_str_nat_le)
  then show ?thesis by (simp add: length_zfill)
qed

lemma format_mono:
  assumes "k \<le> n" and "n < 10000"
  shows "zfill 4 (str_nat k) \<le> zfill 4 (str_nat n)"
proof (rule digits_le_of_value_le)
  from assms have "k < 10000" by simp
  then show "length (zfill 4 (str_nat k)) = length (zfill 4 (str_nat n))"
    using assms(2) by (simp only: length_format_small)
  show "set (zfill 4 (str_nat k)) \<subseteq> set ''0123456789''"
    by (intro zfill_digits str_nat_digits)
  show "set (zfill 4 (str_nat n)) \<subseteq> set ''0123456789''"
    by (intro zfill_digits str_nat_digits)
  show "digits_value (zfill 4 (str_nat k)) \<le> digits_value (zfill 4 (str_nat n))"
    using assms(1) by (simp only: digits_value_zfill)
qed

subsection \<open>Creating orders one at a time\<close>

text \<open>
  While fewer than 10000 orders of the year exist, the generator on the table of the
  first \<open>n\<close> numbers returns the number \<open>n + 1\<close>, which is the row that
  \<open>issued_rows\<close> adds next: \<open>issued_rows\<close> is the table the code itself builds.
\<close>

lemma set_issued_rows:
  "set (issued_rows y n) = (\<lambda>k. os_prefix y @ zfill 4 (str_nat k)) ` {1 .. n}"
  by (auto simp: issued_rows_def format_04d_nat)

lemma generate_issued_rows:
  assumes "n < 10000"
  shows "generate_os_number y (issued_rows y n) =
    Inr (os_prefix y @ zfill 4 (str_nat (Suc n)))"
proof (cases "n = 0")
  case True
  then have "generate_os_number y (issued_rows y n) = Inr (os_prefix y @ ''0001'')"
    by (intro generate_first) (simp add: issued_rows_def)
  with True show ?thesis
    using format_04d_nat [of "Suc 0"] format_04d_one by simp
next
  case False
  let ?ds = "zfill 4 (str_nat n)"
  have digits: "set ?ds \<subseteq> set ''0123456789''"
    by (intro zfill_digits str_nat_digits)
  have nonempty: "?ds \<noteq> []"
    using length_zfill [of 4 "str_nat n"] by auto
  have mem: "os_prefix y @ ?ds \<in> set (issued_rows y n)"
    using False by (auto simp: set_issued_rows)
  have ub: "\<forall>r \<in> set (issued_rows y n). like_prefix (os_prefix y) r \<longrightarrow> r \<le> os_prefix y @ ?ds"
    using assms by (auto simp: set_issued_rows append_le_cancel format_mono)
  have "generate_os_number y (issued_rows y n) =
      Inr (os_prefix y @ zfill 4 (str_nat (Suc (digits_value ?ds))))"
    using mem ub nonempty digits by (rule generate_next)
  then show ?thesis
    by (simp only: digits_value_zfill)
qed

lemma issued_rows_Suc:
  "issued_rows y (Suc n) = issued_rows y n @ [os_prefix y @ zfill 4 (str_nat (Suc n))]"
  using format_04d_nat [of "Suc n"] by (simp add: issued_rows_def)

lemma str_nat_9999: "str_nat 9999 = ''9999''"
  by (simp add: str_nat.simps digit_char_def)

lemma str_nat_10000: "str_nat 10000 = ''10000''"
  by (simp add: str_nat.simps digit_char_def)


subsection \<open>Concrete years and the 10000th order\<close>

lemma os_prefix_2024: "os_prefix 2024 = ''OS-2024-''"
  by (simp add: os_prefix_def str_nat.simps digit_char_def)

lemma os_prefix_2025: "os_prefix 2025 = ''OS-2025-''"
  by (simp add: os_prefix_def str_nat.simps digit_char_def)

lemma zfill_9999: "zfill 4 (str_nat 9999) = ''9999''"
  by (simp add: str_nat_9999 zfill_def)

lemma zfill_10000: "zfill 4 (str_nat 10000) = ''10000''"
  by (simp add: str_nat_10000 zfill_def)

lemma issued_le_9999:
  assumes "k \<le> 10000"
  shows "zfill 4 (str_nat k) \<le> ''9999''"
proof (cases "k = 10000")
  case True
  then show ?thesis by (simp add: zfill_10000)
next
  case False
  with assms have "k \<le> 9999" by simp
  then have "zfill 4 (str_nat k) \<le> zfill 4 (str_nat 9999)"
    by (rule format_mono) simp
  then show ?thesis by (simp only: zfill_9999)
qed

lemma generate_after_10000:
  "generate_os_number y (issued_rows y 10000) = Inr (os_prefix y @ ''10000'')"
proof -
  have mem: "os_prefix y @ ''9999'' \<in> set (issued_rows y 10000)"
    unfolding set_issued_rows using zfill_9999 by (intro image_eqI [where x = 9999]) simp_all
  have ub: "\<forall>r \<in> set (issued_rows y 10000).
      like_prefix (os_prefix y) r \<longrightarrow> r \<le> os_prefix y @ ''9999''"
    by (auto simp: set_issued_rows append_le_cancel issued_le_9999)
  have v: "digits_value ''9999'' = 9999"
    using digits_value_zfill [of 4 9999] by (simp only: zfill_9999)
  have "generate_os_number y (issued_rows y 10000) =
      Inr (os_prefix y @ zfill 4 (str_nat (Suc (digits_value ''9999''))))"
    using mem ub by (rule generate_next) simp_all
  then show ?thesis
    by (simp add: v zfill_10000)
qed

text \<open>
  Claim C5 asks that, for orders created one at a time within a year, the generator
  never return a number that was already issued and that each new sequence number be
  one more than the greatest one so far. This holds for the first 10000 orders of a
  year (\<open>generate_issued_rows\<close>) and fails at the next one: in the table of the
  numbers 0001 to 10000 the greatest string is the one ending in 9999, because
  \<open>''10000''\<close> sorts before \<open>''9999''\<close>, and the generator returns the number
  ending in 10000 again, which the table already holds.
\<close>

theorem C5_duplicate_after_10000:
  "generate_os_number y (issued_rows y 10000) = Inr (os_prefix y @ ''10000'')
   \<and> os_prefix y @ ''10000'' \<in> set (issued_rows y 10000)
   \<and> generate_os_number 2024 (issued_rows 2024 10000) = Inr ''OS-2024-10000''
   \<and> ''OS-2024-10000'' \<in> set (issued_rows 2024 10000)"
proof -
  have mem: "os_prefix y @ ''10000'' \<in> set (issued_rows y 10000)" for y
    unfolding set_issued_rows using zfill_10000 by (intro image_eqI [where x = 10000]) simp_all
  from mem [of y] mem [of 2024] generate_after_10000 [of y] generate_after_10000 [of 2024]
  show ?thesis
    by (simp add: os_prefix_2024)
qed

text \<open>
  Claim C4. When no row starts with \<^verbatim>\<open>OS-{year}-\<close> the generator returns
  \<^verbatim>\<open>OS-{year}-0001\<close>. Otherwise, when the greatest matching row in the order of the
  strings is the prefix followed by digits, it returns the prefix followed by that
  number plus one, printed in decimal and padded with zeros to four digits: the suffix
  is a digit text whose value is the successor, it has at least four characters,
  exactly four below 10000, and from 10000 on it is the plain decimal text, wider than
  four characters, with no failure.
\<close>

theorem C4_next_order_number:
  "((\<forall>r \<in> set rows. \<not> like_prefix (os_prefix y) r) \<longrightarrow>
      generate_os_number y rows = Inr (os_prefix y @ ''0001''))
   \<and> (os_prefix y @ ds \<in> set rows
        \<and> (\<forall>r \<in> set rows. like_prefix (os_prefix y) r \<longrightarrow> r \<le> os_prefix y @ ds)
        \<and> ds \<noteq> [] \<and> set ds \<subseteq> set ''0123456789'' \<longrightarrow>
      generate_os_number y rows =
        Inr (os_prefix y @ zfill 4 (str_nat (digits_value ds + 1)))
      \<and> set (zfill 4 (str_nat (digits_value ds + 1))) \<subseteq> set ''0123456789''
      \<and> digits_value (zfill 4 (str_nat (digits_value ds + 1))) = digits_value ds + 1
      \<and> 4 \<le> length (zfill 4 (str_nat (digits_value ds + 1)))
      \<and> (digits_value ds + 1 < 10000 \<longrightarrow>
            length (zfill 4 (str_nat (digits_value ds + 1))) = 4)
      \<and> (9999 < digits_value ds + 1 \<longrightarrow>
            zfill 4 (str_nat (digits_value ds + 1)) = str_nat (digits_value ds + 1)))"
proof (intro conjI impI)
  assume "\<forall>r \<in> set rows. \<not> like_prefix (os_prefix y) r"
  then show "generate_os_number y rows = Inr (os_prefix y @ ''0001'')"
    by (rule generate_first)
next
  assume a: "os_prefix y @ ds \<in> set rows
        \<and> (\<forall>r \<in> set rows. like_prefix (os_prefix y) r \<longrightarrow> r \<le> os_prefix y @ ds)
        \<and> ds \<noteq> [] \<and> set ds \<subseteq> set ''0123456789''"
  then show "generate_os_number y rows =
        Inr (os_prefix y @ zfill 4 (str_nat (digits_value ds + 1)))"
    using generate_next [of y ds rows] by simp
next
  show "set (zfill 4 (str_nat (digits_value ds + 1))) \<subseteq> set ''0123456789''"
    by (intro zfill_digits str_nat_digits)
next
  show "digits_value (zfill 4 (str_nat (digits_value ds + 1))) = digits_value ds + 1"
    by (rule digits_value_zfill)
next
  show "4 \<le> length (zfill 4 (str_nat (digits_value ds + 1)))"
    by (simp add: length_zfill)
next
  assume "digits_value ds + 1 < 10000"
  then show "length (zfill 4 (str_nat (digits_value ds + 1))) = 4"
    by (rule length_format_small)
next
  assume "9999 < digits_value ds + 1"
  then have "10 ^ 4 \<le> digits_value ds + 1" by simp
  then have "4 < length (str_nat (digits_value ds + 1))"
    by (rule length_str_nat_ge)
  then show "zfill 4 (str_nat (digits_value ds + 1)) = str_nat (digits_value ds + 1)"
    by (intro zfill_wide) simp
qed

theorem C4_next_order_number_witness:
  "generate_os_number 2025 [''OS-2024-0001'', ''OS-2024-0002''] = Inr ''OS-2025-0001''
   \<and> generate_os_number 2024 [''OS-2024-0007'', ''OS-2023-0150'', ''OS-2024-0041''] =
       Inr ''OS-2024-0042''
   \<and> generate_os_number 2024 [''OS-2024-9999''] = Inr ''OS-2024-10000''"
proof -
  have v1: "digits_value ''0041'' = 41" and v2: "digits_value ''9999'' = 9999"
    by (simp_all add: digits_value_def)
  have s1: "zfill 4 (str_nat 42) = ''0042''" and s2: "zfill 4 (str_nat 10000) = ''10000''"
    by (simp_all add: zfill_def str_nat.simps digit_char_def numeral_2_eq_2)
  have a: "generate_os_number 2025 [''OS-2024-0001'', ''OS-2024-0002''] = Inr ''OS-2025-0001''"
    using C4_next_order_number [of "[''OS-2024-0001'', ''OS-2024-0002'']" 2025 "''0''"]
    by (simp add: os_prefix_2025 like_prefix_def)
  have b: "generate_os_number 2024 [''OS-2024-0007'', ''OS-2023-0150'', ''OS-2024-0041''] =
       Inr ''OS-2024-0042''"
    using C4_next_order_number [of "[''OS-2024-0007'', ''OS-2023-0150'', ''OS-2024-0041'']"
        2024 "''0041''"]
    by (simp add: os_prefix_2024 like_prefix_def v1 s1)
  have c: "generate_os_number 2024 [''OS-2024-9999''] = Inr ''OS-2024-10000''"
    using C4_next_order_number [of "[''OS-2024-9999'']" 2024 "''9999''"]
    by (simp add: os_prefix_2024 like_prefix_def v2 s2)
  from a b c show ?thesis by simp
qed

end
